theory Spec2Isabelle
  imports
    Main
    "HOL-Library.AList"
    "HOL-Library.List_Lexorder"
    "HOL-Library.Product_Lexorder"
    "HOL-Library.Multiset"
    "HOL-Library.Sublist"
begin

section \<open>Text cleaning and topic identification: the embedding\<close>

subsection \<open>Python strings and the library functions the script calls\<close>

text \<open>
  A Python \<^verbatim>\<open>str\<close> is a sequence of Unicode code points, so a string is a list of
  naturals; \<open>py\<close> turns a literal of the script into that form. Python compares strings
  code point by code point, which is the lexicographic order on lists.
\<close>

type_synonym pystr = "nat list"

definition py :: "string \<Rightarrow> pystr" where
  "py s = map of_char s"

abbreviation apostrophe :: char where
  "apostrophe \<equiv> CHR 0x27"

text \<open>
  The script calls into NLTK and into Python's Unicode tables. None of that code is part of
  the script, so it is a parameter of the model:
  \<^item> \<open>word_tokenize\<close> is \<^verbatim>\<open>nltk.tokenize.word_tokenize\<close>;
  \<^item> \<open>str_lower\<close> is \<^verbatim>\<open>str.lower\<close>;
  \<^item> \<open>letter\<close> is the Unicode property "Letter" that \<^verbatim>\<open>str.isalpha\<close> tests
    on each character;
  \<^item> \<open>lemmatize\<close> is \<^verbatim>\<open>WordNetLemmatizer().lemmatize\<close>.
\<close>

record nlp_lib =
  word_tokenize :: "pystr \<Rightarrow> pystr list"
  str_lower :: "pystr \<Rightarrow> pystr"
  letter :: "nat \<Rightarrow> bool"
  lemmatize :: "pystr \<Rightarrow> pystr"

text \<open>
  \<^verbatim>\<open>t.isalpha()\<close>: true if all characters of the string are alphabetic and there is at
  least one character.
\<close>

definition isalpha :: "'a nlp_lib_scheme \<Rightarrow> pystr \<Rightarrow> bool" where
  "isalpha L t = (t \<noteq> [] \<and> list_all (letter L) t)"

subsection \<open>The stop-word lists\<close>

definition english_stops :: "pystr list" where
  "english_stops = map py [
    ''i'', ''me'', ''my'', ''myself'', ''we'', ''our'', ''ours'', ''ourselves'', ''you'',
    ''your'', ''yours'', ''yourself'', ''yourselves'', ''he'', ''him'', ''his'',
    ''himself'', ''she'', ''her'', ''hers'', ''herself'', ''it'', ''its'', ''itself'',
    ''they'', ''them'', ''their'', ''theirs'', ''themselves'', ''what'', ''which'',
    ''who'', ''whom'', ''this'', ''that'', ''these'', ''those'', ''am'', ''is'', ''are'',
    ''was'', ''were'', ''be'', ''been'', ''being'', ''have'', ''has'', ''had'',
    ''having'', ''do'', ''does'', ''did'', ''doing'', ''a'', ''an'', ''the'', ''and'',
    ''but'', ''if'', ''or'', ''because'', ''as'', ''until'', ''while'', ''of'', ''at'',
    ''by'', ''for'', ''with'', ''about'', ''against'', ''between'', ''into'', ''through'',
    ''during'', ''before'', ''after'', ''above'', ''below'', ''to'', ''from'', ''up'',
    ''down'', ''in'', ''out'', ''on'', ''off'', ''over'', ''under'', ''again'',
    ''further'', ''then'', ''once'', ''here'', ''there'', ''when'', ''where'', ''why'',
    ''how'', ''all'', ''any'', ''both'', ''each'', ''few'', ''more'', ''most'', ''other'',
    ''some'', ''such'', ''no'', ''nor'', ''not'', ''only'', ''own'', ''same'', ''so'',
    ''than'', ''too'', ''very'', ''s'', ''t'', ''can'', ''will'', ''just'', ''don'',
    ''should'', ''now'', ''d'', ''ll'', ''m'', ''o'', ''re'', ''ve'', ''y'', ''ain'',
    ''aren'', ''couldn'', ''didn'', ''doesn'', ''hadn'', ''hasn'', ''haven'', ''isn'',
    ''ma'', ''mightn'', ''mustn'', ''needn'', ''shan'', ''shouldn'', ''wasn'', ''weren'',
    ''won'', '''']"

definition earlymodern_stops :: "pystr list" where
  "earlymodern_stops = map py [
    ''art'', ''doth'', ''dost'', ([apostrophe] @ ''ere''), ''hast'', ''hath'', ''hence'',
    ''hither'', ''nigh'', ''oft'', (''should'' @ [apostrophe] @ ''st''), ''thither'',
    ''tither'', ''thee'', ''thou'', ''thine'', ''thy'', ([apostrophe] @ ''tis''),
    ([apostrophe] @ ''twas''), ''wast'', ''whence'', ''wherefore'', ''whereto'',
    ''withal'', (''would'' @ [apostrophe] @ ''st''), ''ye'', ''yon'', ''yonder'']"

subsection \<open>The cleaning pipeline\<close>

text \<open>
  The script runs the same four list comprehensions twice: on the play, where the stop list
  is \<^verbatim>\<open>english_stops + earlymodern_stops\<close>, and on each downloaded article, where it
  is \<^verbatim>\<open>english_stops\<close> alone. The stages are written once, with the stop list as an
  argument, and instantiated for the two cells.
\<close>

definition lower_tokens :: "'a nlp_lib_scheme \<Rightarrow> pystr \<Rightarrow> pystr list" where
  "lower_tokens L raw = map (str_lower L) (word_tokenize L raw)"

definition alpha_only :: "'a nlp_lib_scheme \<Rightarrow> pystr \<Rightarrow> pystr list" where
  "alpha_only L raw = filter (isalpha L) (lower_tokens L raw)"

definition no_stops_of :: "pystr list \<Rightarrow> 'a nlp_lib_scheme \<Rightarrow> pystr \<Rightarrow> pystr list" where
  "no_stops_of stops L raw = filter (\<lambda>t. t \<notin> set stops) (alpha_only L raw)"

definition lemmatized_of :: "pystr list \<Rightarrow> 'a nlp_lib_scheme \<Rightarrow> pystr \<Rightarrow> pystr list" where
  "lemmatized_of stops L raw = map (lemmatize L) (no_stops_of stops L raw)"

text \<open>The play: \<^verbatim>\<open>t not in (english_stops + earlymodern_stops)\<close>.\<close>

definition no_stops :: "'a nlp_lib_scheme \<Rightarrow> pystr \<Rightarrow> pystr list" where
  "no_stops = no_stops_of (english_stops @ earlymodern_stops)"

definition lemmatized :: "'a nlp_lib_scheme \<Rightarrow> pystr \<Rightarrow> pystr list" where
  "lemmatized = lemmatized_of (english_stops @ earlymodern_stops)"

text \<open>The articles: \<^verbatim>\<open>t not in english_stops\<close>.\<close>

definition article_no_stops :: "'a nlp_lib_scheme \<Rightarrow> pystr \<Rightarrow> pystr list" where
  "article_no_stops = no_stops_of english_stops"

definition article_lemmatized :: "'a nlp_lib_scheme \<Rightarrow> pystr \<Rightarrow> pystr list" where
  "article_lemmatized = lemmatized_of english_stops"

subsection \<open>A small concrete library\<close>

text \<open>
  To run the pipeline on concrete texts the parameters need values. \<open>sample_lib\<close> is the
  ASCII fragment of the real functions: it splits at blanks, folds \<open>A\<close> to \<open>Z\<close>, takes the
  ASCII letters as alphabetic, and knows two WordNet entries, the plural nouns \<open>wills\<close> and
  \<open>lords\<close>, which the lemmatizer maps to \<open>will\<close> and \<open>lord\<close>; every other word passes
  through unchanged, as a word unknown to WordNet does.
\<close>

fun split_blank :: "pystr \<Rightarrow> pystr \<Rightarrow> pystr list" where
  "split_blank cur [] = (if cur = [] then [] else [cur])"
| "split_blank cur (c # cs) =
     (if c = 32 then (if cur = [] then [] else [cur]) @ split_blank [] cs
      else split_blank (cur @ [c]) cs)"

definition ascii_lower_char :: "nat \<Rightarrow> nat" where
  "ascii_lower_char c = (if 65 \<le> c \<and> c \<le> 90 then c + 32 else c)"

definition ascii_letter :: "nat \<Rightarrow> bool" where
  "ascii_letter c = ((65 \<le> c \<and> c \<le> 90) \<or> (97 \<le> c \<and> c \<le> 122))"

definition sample_lemmatize :: "pystr \<Rightarrow> pystr" where
  "sample_lemmatize w =
     (if w = py ''wills'' then py ''will''
      else if w = py ''lords'' then py ''lord''
      else w)"

definition sample_lib :: nlp_lib where
  "sample_lib = \<lparr> word_tokenize = split_blank [],
                  str_lower = map ascii_lower_char,
                  letter = ascii_letter,
                  lemmatize = sample_lemmatize \<rparr>"

text \<open>
  The claim about the lemmatizer's input speaks of lowercase characters. The script never
  asks whether a character is lowercase; to state the claim the library is extended by
  \<open>lowercase\<close>, the Unicode property that \<^verbatim>\<open>str.islower\<close> tests on each character.
\<close>

record nlp_lib_case = nlp_lib +
  lowercase :: "nat \<Rightarrow> bool"

text \<open>
  \<open>unicode_sample\<close> agrees with Python on ASCII and on three more code points:
  U+03D2, a capital letter (category Lu) that has no lowercase form, and U+4E2D and
  U+6587, two letters without case (category Lo). \<^verbatim>\<open>str.lower\<close> leaves all three as
  they are, \<^verbatim>\<open>str.isalpha\<close> accepts them, and \<^verbatim>\<open>str.islower\<close> rejects them.
\<close>

definition unicode_sample :: nlp_lib_case where
  "unicode_sample = \<lparr> word_tokenize = split_blank [],
                      str_lower = map ascii_lower_char,
                      letter = (\<lambda>c. ascii_letter c \<or> c = 0x3D2 \<or> c = 0x4E2D \<or> c = 0x6587),
                      lemmatize = (\<lambda>w. w),
                      lowercase = (\<lambda>c. 97 \<le> c \<and> c \<le> 122) \<rparr>"

text \<open>
  The ASCII digits \<open>0\<close> to \<open>9\<close> and the ASCII punctuation marks, the apostrophe (39)
  among them. None of them is a letter.
\<close>

definition ascii_digits :: "nat list" where
  "ascii_digits = [48..<58]"

definition ascii_punctuation :: "nat list" where
  "ascii_punctuation = [33..<48] @ [58..<65] @ [91..<97] @ [123..<127]"

text \<open>
  The stop list with every entry that contains an apostrophe taken out; the pipeline run
  with it is compared with the pipeline as the script runs it.
\<close>

definition without_apostrophe :: "pystr list \<Rightarrow> pystr list" where
  "without_apostrophe stops = filter (\<lambda>s. of_char apostrophe \<notin> set s) stops"


section \<open>Counting and indexing: the embedding\<close>

subsection \<open>Python dictionaries\<close>

text \<open>
  A Python \<^verbatim>\<open>dict\<close> keeps its keys in insertion order, and the script sorts and prints
  in that order, so a dictionary is an association list with one entry per key.
  \<^const>\<open>AList.update\<close> is the assignment \<^verbatim>\<open>d[k] = v\<close>: it overwrites the entry of a
  key that is present, in place, and appends the entry of a new key. \<^const>\<open>map_of\<close> is
  \<^verbatim>\<open>d.get(k)\<close>, with \<open>None\<close> for Python's \<^verbatim>\<open>None\<close>.
\<close>

type_synonym ('k, 'v) pydict = "('k \<times> 'v) list"

text \<open>
  \<^verbatim>\<open>collections.defaultdict(int)\<close>: reading a key that is missing stores the default
  \<^verbatim>\<open>int()\<close>, which is 0, under that key and returns it. \<open>dd_getitem\<close> returns the value
  read and the dictionary after the read; \<open>dd_iadd\<close> is \<^verbatim>\<open>d[k] += n\<close>.
\<close>

definition dd_getitem :: "'k \<Rightarrow> ('k, nat) pydict \<Rightarrow> nat \<times> ('k, nat) pydict" where
  "dd_getitem k d = (case map_of d k of Some v \<Rightarrow> (v, d) | None \<Rightarrow> (0, d @ [(k, 0)]))"

definition dd_iadd :: "'k \<Rightarrow> nat \<Rightarrow> ('k, nat) pydict \<Rightarrow> ('k, nat) pydict" where
  "dd_iadd k n d = (case dd_getitem k d of (v, d') \<Rightarrow> AList.update k (v + n) d')"

subsection \<open>Counter and most\_common\<close>

text \<open>
  \<^verbatim>\<open>collections.Counter(tokens)\<close> runs \<^verbatim>\<open>mapping[elem] = mapping.get(elem, 0) + 1\<close>
  over the tokens. \<^verbatim>\<open>most_common(n)\<close> is
  \<^verbatim>\<open>sorted(items, key=itemgetter(1), reverse=True)[:n]\<close> (through
  \<^verbatim>\<open>heapq.nlargest\<close>, documented as equivalent); Python's sort is stable, also with
  \<^verbatim>\<open>reverse=True\<close>, and so is \<^const>\<open>sort_key\<close>, here on the negated count.
\<close>

definition count_elem :: "'k \<Rightarrow> ('k, nat) pydict \<Rightarrow> ('k, nat) pydict" where
  "count_elem elem mapping =
     AList.update elem ((case map_of mapping elem of None \<Rightarrow> 0 | Some c \<Rightarrow> c) + 1) mapping"

definition Counter :: "'k list \<Rightarrow> ('k, nat) pydict" where
  "Counter tokens = fold count_elem tokens []"

definition sorted_by_count_desc :: "('k, nat) pydict \<Rightarrow> ('k \<times> nat) list" where
  "sorted_by_count_desc items = sort_key (\<lambda>kv. - int (snd kv)) items"

definition most_common :: "nat \<Rightarrow> ('k, nat) pydict \<Rightarrow> ('k \<times> nat) list" where
  "most_common n c = take n (sorted_by_count_desc c)"

text \<open>The two bags of words of the script and the lists it prints.\<close>

definition bow_simple :: "'a nlp_lib_scheme \<Rightarrow> pystr \<Rightarrow> (pystr, nat) pydict" where
  "bow_simple L raw = Counter (lower_tokens L raw)"

definition bow :: "'a nlp_lib_scheme \<Rightarrow> pystr \<Rightarrow> (pystr, nat) pydict" where
  "bow L raw = Counter (lemmatized L raw)"

definition bow_simple_printed :: "'a nlp_lib_scheme \<Rightarrow> pystr \<Rightarrow> (pystr \<times> nat) list" where
  "bow_simple_printed L raw = most_common 10 (bow_simple L raw)"

definition bow_printed :: "'a nlp_lib_scheme \<Rightarrow> pystr \<Rightarrow> (pystr \<times> nat) list" where
  "bow_printed L raw = most_common 20 (bow L raw)"

text \<open>The distinct elements of a list in the order of their first occurrence.\<close>

definition first_seen :: "'a list \<Rightarrow> 'a list" where
  "first_seen xs = rev (remdups (rev xs))"

subsection \<open>The gensim dictionary\<close>

text \<open>
  \<^verbatim>\<open>gensim.corpora.dictionary.Dictionary\<close> is library code. Of its state only
  \<^verbatim>\<open>token2id\<close> decides what the script computes (\<^verbatim>\<open>id2token\<close> is its inverse, built
  on demand). \<^verbatim>\<open>Dictionary(documents)\<close> calls
  \<^verbatim>\<open>doc2bow(document, allow_update=True)\<close> on each document in turn, and
  \<^verbatim>\<open>doc2bow\<close> is, in the library:
  \<^verbatim>\<open>
    counter = defaultdict(int)
    for w in document:
        counter[w] += 1
    token2id = self.token2id
    if allow_update or return_missing:
        missing = sorted(x for x in counter.items() if x[0] not in token2id)
        if allow_update:
            for w, _ in missing:
                token2id[w] = len(token2id)
    result = {token2id[w]: freq for w, freq in counter.items() if w in token2id}
    result = sorted(result.items())
    return result
  \<close>
  The words of a document that are new to the dictionary get their ids in sorted order,
  not in the order they stand in the document.
\<close>

record dictionary =
  token2id :: "(pystr, nat) pydict"

definition doc2bow_gen ::
  "bool \<Rightarrow> dictionary \<Rightarrow> pystr list \<Rightarrow> dictionary \<times> (nat \<times> nat) list" where
  "doc2bow_gen allow_update self document =
     (let counter = fold (\<lambda>w. dd_iadd w 1) document [];
          missing = sort (filter (\<lambda>x. map_of (token2id self) (fst x) = None) counter);
          t2i = (if allow_update
                 then fold (\<lambda>(w, _) t. AList.update w (length t) t) missing (token2id self)
                 else token2id self);
          result = fold (\<lambda>(w, freq). AList.update (the (map_of t2i w)) freq)
                     (filter (\<lambda>x. map_of t2i (fst x) \<noteq> None) counter) []
      in (self\<lparr>token2id := t2i\<rparr>, sort result))"

definition doc2bow :: "dictionary \<Rightarrow> pystr list \<Rightarrow> (nat \<times> nat) list" where
  "doc2bow self document = snd (doc2bow_gen False self document)"

definition add_documents :: "pystr list list \<Rightarrow> dictionary \<Rightarrow> dictionary" where
  "add_documents documents self = fold (\<lambda>doc d. fst (doc2bow_gen True d doc)) documents self"

definition Dictionary :: "pystr list list \<Rightarrow> dictionary" where
  "Dictionary documents = add_documents documents \<lparr>token2id = []\<rparr>"

text \<open>
  \<^verbatim>\<open>dictionary.token2id.get(token)\<close> and \<^verbatim>\<open>dictionary.get(id)\<close>; the second looks
  the id up in the reversed \<^verbatim>\<open>token2id\<close> and returns \<^verbatim>\<open>None\<close> for an id it does not
  hold, also for the \<^verbatim>\<open>None\<close> the first lookup may have returned.
\<close>

definition token2id_get :: "dictionary \<Rightarrow> pystr \<Rightarrow> nat option" where
  "token2id_get self token = map_of (token2id self) token"

definition dictionary_get :: "dictionary \<Rightarrow> nat option \<Rightarrow> pystr option" where
  "dictionary_get self tokenid =
     (case tokenid of
        None \<Rightarrow> None
      | Some i \<Rightarrow> map_of (map (\<lambda>(w, j). (j, w)) (token2id self)) i)"

text \<open>The corpus of the script and the totals over it.\<close>

definition corpus_of :: "pystr list list \<Rightarrow> (nat \<times> nat) list list" where
  "corpus_of articles = map (doc2bow (Dictionary articles)) articles"

definition total_word_count :: "(nat \<times> nat) list list \<Rightarrow> (nat, nat) pydict" where
  "total_word_count corpus =
     fold (\<lambda>(word_id, word_count). dd_iadd word_id word_count) (concat corpus) []"

text \<open>The count a sparse vector or a count mapping holds for an id: 0 for an id it lacks.\<close>

definition count_at :: "('k \<times> nat) list \<Rightarrow> 'k \<Rightarrow> nat" where
  "count_at v i = (case map_of v i of None \<Rightarrow> 0 | Some c \<Rightarrow> c)"

text \<open>
  The vocabulary as the specification describes it: every distinct token gets the next id
  when it is first seen, documents in input order, tokens in sequence order.
\<close>

definition first_appearance_vocabulary :: "pystr list list \<Rightarrow> (pystr, nat) pydict" where
  "first_appearance_vocabulary documents =
     (let ws = first_seen (concat documents) in zip ws [0..<length ws])"

text \<open>
  The order in which the library hands out ids: document after document, and within a
  document the words that are new, in ascending order.
\<close>

definition new_words :: "pystr list \<Rightarrow> pystr list \<Rightarrow> pystr list" where
  "new_words seen document = sorted_list_of_set (set document - set seen)"

definition id_order :: "pystr list list \<Rightarrow> pystr list" where
  "id_order documents = fold (\<lambda>doc seen. seen @ new_words seen doc) documents []"

text \<open>The loop of the totals, from any dictionary of counts.\<close>

definition add_entries :: "(nat \<times> nat) list \<Rightarrow> (nat, nat) pydict \<Rightarrow> (nat, nat) pydict" where
  "add_entries ps d = fold (\<lambda>(word_id, word_count). dd_iadd word_id word_count) ps d"

text \<open>
  The state of \<^verbatim>\<open>token2id\<close> between two documents: the ids are \<open>0, 1, 2, \<dots>\<close> in the
  order the tokens were inserted, and no token stands twice.
\<close>

definition ids_in_order :: "(pystr, nat) pydict \<Rightarrow> bool" where
  "ids_in_order T = (map snd T = [0..<length T] \<and> distinct (map fst T))"

text \<open>The documents of the specification's example.\<close>

definition example_documents :: "pystr list list" where
  "example_documents =
     [[py ''cost'', py ''cost'', py ''benefit''], [py ''benefit'', py ''analysis'']]"


section \<open>Fetching the articles: the embedding\<close>

text \<open>
  The loop of the script:
  \<^verbatim>\<open>
    responses = []
    for url in urls:
        try:
            r = requests.get(url)
            r.raise_for_status()
        except HTTPError as http_err:
            print(f'HTTP error occurred: {http_err}')
        except Exception as err:
            print(f'Exception occurred: {err}')
        else:
            responses.append(r)
  \<close>
  Exceptions are values. \<open>ConnectionError\<close> stands for whatever \<^verbatim>\<open>requests.get\<close>
  raises when the host cannot be reached, \<open>HTTPError\<close> is what
  \<^verbatim>\<open>raise_for_status\<close> raises, and \<open>NameError\<close> is what Python raises when it
  evaluates a name that is bound nowhere. The network is a parameter: a function from the
  URL to the response, \<open>None\<close> for a host that cannot be reached. The \<^verbatim>\<open>print\<close> calls
  change nothing the loop returns and are left out.
\<close>

datatype exn = ConnectionError | HTTPError nat | NameError string

record response =
  status_code :: nat
  body :: pystr

text \<open>
  \<^verbatim>\<open>Response.raise_for_status\<close> raises \<^verbatim>\<open>HTTPError\<close> for a status from 400 to 599.
\<close>

definition raise_for_status :: "response \<Rightarrow> exn + unit" where
  "raise_for_status r =
     (if 400 \<le> status_code r \<and> status_code r < 600 then Inl (HTTPError (status_code r))
      else Inr ())"

text \<open>
  The names the script has bound when the loop runs, by its \<^verbatim>\<open>import\<close> statements and
  its assignments, and the built-in names it uses. The script imports
  \<^verbatim>\<open>requests\<close>, not \<^verbatim>\<open>HTTPError\<close>, and Python has no built-in of that name.
\<close>

definition script_names :: "string list" where
  "script_names = [
     ''re'', ''my_string'', ''sentence_endings'', ''capitalized_words'', ''digits'',
     ''qubits'', ''nltk'', ''sent_tokenize'', ''word_tokenize'', ''x'', ''filename'',
     ''file'', ''scene_two'', ''sentences'', ''sent_tokens'', ''scene_tokens'', ''match'',
     ''regexp_tokenize'', ''TweetTokenizer'', ''french_text'', ''all_words'',
     ''capital_words'', ''emoji'', ''troilus'', ''lines'', ''pattern'', ''plt'', ''np'',
     ''tokenized_lines'', ''line_num_words'', ''bins'', ''Counter'', ''tokens'',
     ''lower_tokens'', ''bow_simple'', ''troilus_body'', ''alpha_only'', ''english_stops'',
     ''earlymodern_stops'', ''no_stops'', ''WordNetLemmatizer'', ''wordnet_lemmatizer'',
     ''lemmatized'', ''bow'', ''requests'', ''bs4'', ''Dictionary'', ''urls'',
     ''responses'', ''url'', ''r'']"

definition builtin_names :: "string list" where
  "builtin_names = [
     ''Exception'', ''print'', ''str'', ''len'', ''open'', ''set'', ''list'', ''enumerate'',
     ''sorted'', ''dict'', ''get_ipython'']"

text \<open>The body of the \<^verbatim>\<open>try\<close>: the response, or the exception raised.\<close>

definition try_body :: "(pystr \<Rightarrow> response option) \<Rightarrow> pystr \<Rightarrow> exn + response" where
  "try_body net url =
     (case net url of
        None \<Rightarrow> Inl ConnectionError
      | Some r \<Rightarrow> (case raise_for_status r of Inl e \<Rightarrow> Inl e | Inr _ \<Rightarrow> Inr r))"

text \<open>
  The search for a handler of an exception \<open>e\<close> of the body. Python evaluates the
  expression of each \<^verbatim>\<open>except\<close> clause in turn, when the exception is there, and an
  exception raised by that evaluation leaves the whole \<^verbatim>\<open>try\<close> statement: no later
  clause of the same statement catches it. \<open>Inr ()\<close>: a clause handled \<open>e\<close>.
\<close>

definition except_clauses :: "string list \<Rightarrow> exn \<Rightarrow> exn + unit" where
  "except_clauses scope e =
     (if ''HTTPError'' \<notin> set scope then Inl (NameError ''HTTPError'')
      else (case e of
              HTTPError n \<Rightarrow> Inr ()
            | _ \<Rightarrow> (if ''Exception'' \<notin> set scope then Inl (NameError ''Exception'')
                   else Inr ())))"

fun fetch_loop ::
  "string list \<Rightarrow> (pystr \<Rightarrow> response option) \<Rightarrow> pystr list \<Rightarrow> response list
     \<Rightarrow> exn + response list" where
  "fetch_loop scope net [] responses = Inr responses"
| "fetch_loop scope net (url # urls) responses =
     (case try_body net url of
        Inr r \<Rightarrow> fetch_loop scope net urls (responses @ [r])
      | Inl e \<Rightarrow>
          (case except_clauses scope e of
             Inl e' \<Rightarrow> Inl e'
           | Inr _ \<Rightarrow> fetch_loop scope net urls responses))"

text \<open>The loop as the script runs it: \<^verbatim>\<open>responses = []\<close>, in the script's scope.\<close>

definition get_articles ::
  "(pystr \<Rightarrow> response option) \<Rightarrow> pystr list \<Rightarrow> exn + response list" where
  "get_articles net urls = fetch_loop (script_names @ builtin_names) net urls []"

definition fetched :: "(pystr \<Rightarrow> response option) \<Rightarrow> pystr \<Rightarrow> bool" where
  "fetched net url = (case try_body net url of Inr _ \<Rightarrow> True | Inl _ \<Rightarrow> False)"

text \<open>
  A network for running the loop: \<open>a\<close> and \<open>c\<close> answer with status 200, \<open>d\<close> answers
  with status 404, and no other host can be reached.
\<close>

definition sample_net :: "pystr \<Rightarrow> response option" where
  "sample_net url =
     (if url = py ''a'' then Some \<lparr> status_code = 200, body = py ''<p>revenue</p>'' \<rparr>
      else if url = py ''c'' then Some \<lparr> status_code = 200, body = py ''<p>margin</p>'' \<rparr>
      else if url = py ''d'' then Some \<lparr> status_code = 404, body = [] \<rparr>
      else None)"


section \<open>The cleaning pipeline: properties\<close>

subsection \<open>The stages as one filter and one map\<close>

lemma lemmatized_of_eq:
  "lemmatized_of stops L raw =
     map (\<lambda>t. lemmatize L (str_lower L t))
       (filter (\<lambda>t. isalpha L (str_lower L t) \<and> str_lower L t \<notin> set stops)
          (word_tokenize L raw))"
  by (simp add: lemmatized_of_def no_stops_of_def alpha_only_def lower_tokens_def
      filter_map comp_def)

lemma lemmatized_of_subseq:
  "\<exists>ks. subseq ks (word_tokenize L raw) \<and>
        lemmatized_of stops L raw = map (\<lambda>t. lemmatize L (str_lower L t)) ks"
proof -
  let ?ks = "filter (\<lambda>t. isalpha L (str_lower L t) \<and> str_lower L t \<notin> set stops)
               (word_tokenize L raw)"
  have "subseq ?ks (word_tokenize L raw)" by simp
  moreover have "lemmatized_of stops L raw = map (\<lambda>t. lemmatize L (str_lower L t)) ?ks"
    by (rule lemmatized_of_eq)
  ultimately show ?thesis by blast
qed

lemma no_stops_of_subseq: "subseq (no_stops_of stops L raw) (alpha_only L raw)"
  by (simp add: no_stops_of_def)

lemma alpha_only_subseq: "subseq (alpha_only L raw) (lower_tokens L raw)"
  by (simp add: alpha_only_def)

lemma no_stops_of_member:
  "t \<in> set (no_stops_of stops L raw) \<longleftrightarrow>
     t \<in> str_lower L ` set (word_tokenize L raw) \<and> isalpha L t \<and> t \<notin> set stops"
  by (auto simp: no_stops_of_def alpha_only_def lower_tokens_def)

lemma isalpha_rejects:
  "\<not> isalpha L []"
  "c \<in> set u \<Longrightarrow> \<not> letter L c \<Longrightarrow> \<not> isalpha L u"
  by (auto simp: isalpha_def list_all_iff)

lemma no_stops_of_filter:
  assumes "\<And>s. s \<in> set stops \<Longrightarrow> \<not> P s \<Longrightarrow> \<not> isalpha L s"
  shows "no_stops_of (filter P stops) L raw = no_stops_of stops L raw"
  unfolding no_stops_of_def alpha_only_def filter_filter
  by (rule filter_cong) (use assms in auto)

subsection \<open>The concrete library\<close>

lemma ascii_lower_char_idem: "ascii_lower_char (ascii_lower_char c) = ascii_lower_char c"
  by (simp add: ascii_lower_char_def)

lemmas unicode_eval = no_stops_def article_no_stops_def no_stops_of_def alpha_only_def
  lower_tokens_def unicode_sample_def isalpha_def ascii_letter_def ascii_lower_char_def
  english_stops_def earlymodern_stops_def py_def

lemmas sample_eval = no_stops_def article_no_stops_def no_stops_of_def alpha_only_def
  lower_tokens_def sample_lib_def py_def isalpha_def ascii_letter_def ascii_lower_char_def
  sample_lemmatize_def english_stops_def earlymodern_stops_def lemmatized_def
  article_lemmatized_def lemmatized_of_def

subsection \<open>Order of the surviving tokens\<close>

text \<open>
  Claim C8. For every input text the tokens that survive the filters stand in the output
  in the order the tokenizer produced them: the output is the tokenizer's sequence with
  some tokens deleted (a subsequence \<open>ks\<close> of it) and each survivor case-folded and
  lemmatized in place. Each filter stage is a subsequence of the stage before it, and the
  case folding and the lemmatization keep every position. This holds for the play and for
  the articles.
\<close>

theorem order_preservation:
  "(\<exists>ks. subseq ks (word_tokenize L raw) \<and>
         lemmatized L raw = map (\<lambda>t. lemmatize L (str_lower L t)) ks) \<and>
   (\<exists>ks. subseq ks (word_tokenize L raw) \<and>
         article_lemmatized L raw = map (\<lambda>t. lemmatize L (str_lower L t)) ks) \<and>
   subseq (alpha_only L raw) (lower_tokens L raw) \<and>
   subseq (no_stops L raw) (alpha_only L raw) \<and>
   subseq (article_no_stops L raw) (alpha_only L raw) \<and>
   length (lower_tokens L raw) = length (word_tokenize L raw) \<and>
   lemmatized L raw = map (lemmatize L) (no_stops L raw) \<and>
   article_lemmatized L raw = map (lemmatize L) (article_no_stops L raw)"
  unfolding lemmatized_def article_lemmatized_def no_stops_def article_no_stops_def
  using lemmatized_of_subseq [of L raw] no_stops_of_subseq [of _ L raw]
    alpha_only_subseq [of L raw]
  by (simp add: lower_tokens_def lemmatized_of_def)

subsection \<open>What reaches the lemmatizer\<close>

text \<open>
  Claim C9, as the specification states it: every token of \<^verbatim>\<open>no_stops\<close> is non-empty
  and consists entirely of lowercase alphabetic characters. Case folding does not make
  every letter lowercase: it leaves a capital without a lowercase form (U+03D2) and a
  letter without case (U+4E2D, U+6587) as they are, and \<^verbatim>\<open>isalpha\<close> accepts both. The
  texts that consist of the one token U+03D2 U+03D2, or U+4E2D U+6587, hand that token to
  the lemmatizer, and none of its characters is lowercase.
\<close>

theorem lowercase_tokens_counterexample:
  "\<not> (\<forall>(L :: nlp_lib_case) raw t.
        t \<in> set (no_stops L raw) \<longrightarrow>
          t \<noteq> [] \<and> list_all (\<lambda>c. lowercase L c \<and> letter L c) t) \<and>
   no_stops unicode_sample [0x3D2, 0x3D2] = [[0x3D2, 0x3D2]] \<and>
   no_stops unicode_sample [0x4E2D, 0x6587] = [[0x4E2D, 0x6587]] \<and>
   article_no_stops unicode_sample [0x4E2D, 0x6587] = [[0x4E2D, 0x6587]] \<and>
   \<not> lowercase unicode_sample 0x3D2 \<and>
   \<not> lowercase unicode_sample 0x4E2D \<and>
   \<not> lowercase unicode_sample 0x6587"
proof -
  have e1: "no_stops unicode_sample [0x3D2, 0x3D2] = [[0x3D2, 0x3D2]]"
    by (simp add: unicode_eval)
  have e2: "no_stops unicode_sample [0x4E2D, 0x6587] = [[0x4E2D, 0x6587]]"
    by (simp add: unicode_eval)
  have e3: "article_no_stops unicode_sample [0x4E2D, 0x6587] = [[0x4E2D, 0x6587]]"
    by (simp add: unicode_eval)
  have l: "\<not> lowercase unicode_sample 0x3D2" "\<not> lowercase unicode_sample 0x4E2D"
    "\<not> lowercase unicode_sample 0x6587"
    by (simp_all add: unicode_sample_def)
  have "\<not> (\<forall>(L :: nlp_lib_case) raw t.
        t \<in> set (no_stops L raw) \<longrightarrow>
          t \<noteq> [] \<and> list_all (\<lambda>c. lowercase L c \<and> letter L c) t)"
  proof
    assume "\<forall>(L :: nlp_lib_case) raw t.
        t \<in> set (no_stops L raw) \<longrightarrow>
          t \<noteq> [] \<and> list_all (\<lambda>c. lowercase L c \<and> letter L c) t"
    then have "[0x3D2, 0x3D2] \<in> set (no_stops unicode_sample [0x3D2, 0x3D2]) \<longrightarrow>
        list_all (\<lambda>c. lowercase unicode_sample c \<and> letter unicode_sample c) [0x3D2, 0x3D2]"
      by blast
    with e1 l(1) show False by simp
  qed
  with e1 e2 e3 l show ?thesis by blast
qed

text \<open>
  Claim C9, amended. Every token of \<^verbatim>\<open>no_stops\<close>, in the play's cell and in the
  articles' loop, is non-empty, consists of alphabetic characters only, and is case-folded:
  it is a value of \<^verbatim>\<open>str.lower\<close>, which leaves it unchanged (case folding comes
  first and is idempotent). The ASCII digits and punctuation marks, the apostrophe among
  them, are not letters, so no token contains one of them. \<^verbatim>\<open>isalpha\<close> rejects the
  empty string and every string containing a character that is not a letter, and the
  stop-word filter only deletes elements.
\<close>

theorem lemmatizer_input_alpha_case_folded:
  assumes idem: "\<And>s. str_lower L (str_lower L s) = str_lower L s"
    and nonletters: "\<forall>c \<in> set (ascii_digits @ ascii_punctuation). \<not> letter L c"
    and mem: "t \<in> set (no_stops L raw) \<or> t \<in> set (article_no_stops L raw)"
  shows "t \<noteq> [] \<and> list_all (letter L) t \<and>
         t \<in> str_lower L ` set (word_tokenize L raw) \<and> str_lower L t = t \<and>
         set t \<inter> set (ascii_digits @ ascii_punctuation) = {} \<and>
         of_char apostrophe \<notin> set t \<and>
         \<not> isalpha L [] \<and> (\<forall>u c. c \<in> set u \<and> \<not> letter L c \<longrightarrow> \<not> isalpha L u) \<and>
         subseq (no_stops L raw) (alpha_only L raw) \<and>
         subseq (article_no_stops L raw) (alpha_only L raw)"
proof -
  from mem have im: "t \<in> str_lower L ` set (word_tokenize L raw)" and a: "isalpha L t"
    by (auto simp: no_stops_def article_no_stops_def no_stops_of_member)
  from im obtain u where u: "t = str_lower L u" by blast
  from u idem have fixed: "str_lower L t = t" by simp
  from a have ne: "t \<noteq> []" and all: "list_all (letter L) t"
    by (simp_all add: isalpha_def)
  have disj: "set t \<inter> set (ascii_digits @ ascii_punctuation) = {}"
    using all nonletters by (auto simp: list_all_iff)
  have "of_char apostrophe \<in> set (ascii_digits @ ascii_punctuation)"
    by (simp add: ascii_digits_def ascii_punctuation_def)
  with disj have ap: "of_char apostrophe \<notin> set t" by blast
  have rej: "\<forall>u c. c \<in> set u \<and> \<not> letter L c \<longrightarrow> \<not> isalpha L u"
    using isalpha_rejects(2) by blast
  have emp: "\<not> isalpha L []" by (rule isalpha_rejects(1))
  have s1: "subseq (no_stops L raw) (alpha_only L raw)"
    unfolding no_stops_def by (rule no_stops_of_subseq)
  have s2: "subseq (article_no_stops L raw) (alpha_only L raw)"
    unfolding article_no_stops_def by (rule no_stops_of_subseq)
  from ne all im fixed disj ap emp rej s1 s2 show ?thesis by blast
qed

theorem lemmatizer_input_alpha_case_folded_witness:
  "(\<forall>s. str_lower sample_lib (str_lower sample_lib s) = str_lower sample_lib s) \<and>
   list_all (\<lambda>c. \<not> letter sample_lib c) (ascii_digits @ ascii_punctuation) \<and>
   no_stops sample_lib (py ''The Lords 42 don't'') = [py ''lords''] \<and>
   py ''lords'' \<noteq> [] \<and> list_all (letter sample_lib) (py ''lords'') \<and>
   str_lower sample_lib (py ''lords'') = py ''lords'' \<and>
   set (py ''lords'') \<inter> set (ascii_digits @ ascii_punctuation) = {}"
proof -
  have idem: "\<And>s. str_lower sample_lib (str_lower sample_lib s) = str_lower sample_lib s"
    by (simp add: sample_lib_def ascii_lower_char_idem)
  have nl: "\<forall>c \<in> set (ascii_digits @ ascii_punctuation). \<not> letter sample_lib c"
    by (auto simp: ascii_digits_def ascii_punctuation_def sample_lib_def ascii_letter_def)
  have ev: "no_stops sample_lib (py ''The Lords 42 don't'') = [py ''lords'']"
    by (simp add: sample_eval)
  then have mem: "py ''lords'' \<in> set (no_stops sample_lib (py ''The Lords 42 don't'')) \<or>
      py ''lords'' \<in> set (article_no_stops sample_lib (py ''The Lords 42 don't''))"
    by simp
  from lemmatizer_input_alpha_case_folded [OF idem nl mem] idem nl ev show ?thesis
    by (simp add: list_all_iff)
qed

subsection \<open>Stop words\<close>

text \<open>
  Claim C3, as the specification states it: no word of the stop list ever stands in the
  lemmatized output. The lemmatizer runs after the stop-word filter, and WordNet maps the
  plural \<open>wills\<close>, which is no stop word, to \<open>will\<close>, which is one: on the text
  \<open>their Wills\<close> the output is \<open>[will]\<close>.
\<close>

theorem stop_word_in_output_counterexample:
  "\<not> (\<forall>(L :: nlp_lib) raw t.
        t \<in> set (english_stops @ earlymodern_stops) \<longrightarrow> t \<notin> set (lemmatized L raw))"
proof
  assume a: "\<forall>(L :: nlp_lib) raw t.
        t \<in> set (english_stops @ earlymodern_stops) \<longrightarrow> t \<notin> set (lemmatized L raw)"
  have m: "py ''will'' \<in> set (english_stops @ earlymodern_stops)"
    by (simp add: english_stops_def py_def)
  have "lemmatized sample_lib (py ''their Wills'') = [py ''will'']"
    by (simp add: sample_eval)
  with a m show False by (metis list.set_intros(1))
qed

text \<open>
  Claim C3, amended. No word of the stop list stands in \<^verbatim>\<open>no_stops\<close>, the sequence
  handed to the lemmatizer, whatever case the word had in the text: a token whose
  lower-case form is a stop word is dropped. The output is the image of that sequence
  under the lemmatizer. In the articles' loop the same holds for
  \<^verbatim>\<open>english_stops\<close>, the list that loop filters with.
\<close>

theorem stop_words_removed_before_lemmatizer:
  assumes "t \<in> set (english_stops @ earlymodern_stops)"
  shows "t \<notin> set (no_stops L raw) \<and>
         (\<forall>u \<in> set (word_tokenize L raw).
            str_lower L u = t \<longrightarrow> str_lower L u \<notin> set (no_stops L raw)) \<and>
         lemmatized L raw = map (lemmatize L) (no_stops L raw) \<and>
         (t \<in> set english_stops \<longrightarrow> t \<notin> set (article_no_stops L raw))"
  using assms
  by (auto simp: no_stops_def article_no_stops_def no_stops_of_def lemmatized_def
      lemmatized_of_def)

theorem stop_words_removed_before_lemmatizer_witness:
  "py ''the'' \<in> set (english_stops @ earlymodern_stops) \<and>
   word_tokenize sample_lib (py ''The Lords thE'') = [py ''The'', py ''Lords'', py ''thE''] \<and>
   py ''the'' \<notin> set (no_stops sample_lib (py ''The Lords thE'')) \<and>
   py ''the'' \<notin> set (article_no_stops sample_lib (py ''The Lords thE''))"
proof -
  have m: "py ''the'' \<in> set (english_stops @ earlymodern_stops)"
    by (simp add: english_stops_def py_def)
  have m': "py ''the'' \<in> set english_stops"
    by (simp add: english_stops_def py_def)
  have tk: "word_tokenize sample_lib (py ''The Lords thE'') =
      [py ''The'', py ''Lords'', py ''thE'']"
    by (simp add: sample_lib_def py_def)
  from stop_words_removed_before_lemmatizer [OF m, of sample_lib "py ''The Lords thE''"]
    m m' tk
  show ?thesis by blast
qed

subsection \<open>The stop words with an apostrophe\<close>

lemma apostrophe_entries:
  "filter (\<lambda>s. of_char apostrophe \<in> set s) (english_stops @ earlymodern_stops) =
     map py [[apostrophe] @ ''ere'', ''should'' @ [apostrophe] @ ''st'',
             [apostrophe] @ ''tis'', [apostrophe] @ ''twas'',
             ''would'' @ [apostrophe] @ ''st'']"
  by (simp add: english_stops_def earlymodern_stops_def py_def)

text \<open>
  Claim C10. The alphabetic filter runs before the stop-word filter and the apostrophe is
  not a letter, so a stop word with an apostrophe matches no surviving token: for every
  text, the play's pipeline gives the same output with the full stop list as with the
  list from which the entries containing an apostrophe are removed.
\<close>

theorem apostrophe_stops_redundant:
  assumes "\<not> letter L (of_char apostrophe)"
  shows "lemmatized L raw =
           lemmatized_of (without_apostrophe (english_stops @ earlymodern_stops)) L raw"
proof -
  have "no_stops_of
          (filter (\<lambda>s. of_char apostrophe \<notin> set s) (english_stops @ earlymodern_stops)) L raw
        = no_stops_of (english_stops @ earlymodern_stops) L raw"
    by (rule no_stops_of_filter) (use assms in \<open>auto simp: isalpha_def list_all_iff\<close>)
  then show ?thesis
    by (simp add: lemmatized_def lemmatized_of_def without_apostrophe_def)
qed

theorem apostrophe_stops_redundant_witness:
  "\<not> letter sample_lib (of_char apostrophe) \<and>
   lemmatized sample_lib (py ([apostrophe] @ ''Tis the Lords'')) = [py ''lord''] \<and>
   lemmatized_of (without_apostrophe (english_stops @ earlymodern_stops)) sample_lib
     (py ([apostrophe] @ ''Tis the Lords'')) = [py ''lord'']"
proof -
  have h: "\<not> letter sample_lib (of_char apostrophe)"
    by (simp add: sample_lib_def ascii_letter_def)
  have ev: "lemmatized sample_lib (py ([apostrophe] @ ''Tis the Lords'')) = [py ''lord'']"
    by (simp add: sample_eval)
  from apostrophe_stops_redundant [OF h, of "py ([apostrophe] @ ''Tis the Lords'')"] h ev
  show ?thesis by simp
qed

section \<open>Fetching the articles: properties\<close>

lemma fetch_loop_all_fetched:
  "list_all (fetched net) urls \<Longrightarrow>
     fetch_loop scope net urls acc = Inr (acc @ map (\<lambda>u. the (net u)) urls)"
proof (induction urls arbitrary: acc)
  case Nil
  then show ?case by simp
next
  case (Cons u us)
  then show ?case
    by (auto simp: fetched_def try_body_def split: option.splits sum.splits)
qed

text \<open>
  With \<^verbatim>\<open>HTTPError\<close> bound (had the script imported it) the loop skips every source
  that fails and returns the responses of the others, in order.
\<close>

lemma fetch_loop_imported:
  "''HTTPError'' \<in> set scope \<Longrightarrow> ''Exception'' \<in> set scope \<Longrightarrow>
     fetch_loop scope net urls acc =
       Inr (acc @ map (\<lambda>u. the (net u)) (filter (fetched net) urls))"
proof (induction urls arbitrary: acc)
  case Nil
  then show ?case by simp
next
  case (Cons u us)
  then show ?case
    by (auto simp: fetched_def try_body_def except_clauses_def
        split: option.splits sum.splits exn.splits)
qed

text \<open>In the script's scope the first source that fails ends the loop with a NameError.\<close>

lemma fetch_loop_script_scope_failure:
  "\<not> list_all (fetched net) urls \<Longrightarrow>
     fetch_loop (script_names @ builtin_names) net urls acc = Inl (NameError ''HTTPError'')"
proof (induction urls arbitrary: acc)
  case Nil
  then show ?case by simp
next
  case (Cons u us)
  then show ?case
    by (auto simp: fetched_def except_clauses_def script_names_def builtin_names_def
        split: sum.splits)
qed

lemma get_articles_failure:
  "\<not> list_all (fetched net) urls \<Longrightarrow> get_articles net urls = Inl (NameError ''HTTPError'')"
  by (simp add: get_articles_def fetch_loop_script_scope_failure)

text \<open>
  Claim C1: when fetching one source fails, the loop skips it, goes on, and ends normally
  with one response per source fetched. The script does not do that. The handler
  \<^verbatim>\<open>except HTTPError\<close> names a class the script never imports, so the first failure,
  an unreachable host (\<open>b\<close>) or a status 404 (\<open>d\<close>), raises
  \<^verbatim>\<open>NameError: name 'HTTPError' is not defined\<close> out of the loop, and the sources after
  it are never fetched. Only when every source answers does the loop return.
\<close>

theorem fetch_failure_leaves_loop:
  "get_articles sample_net [py ''a'', py ''b'', py ''c''] = Inl (NameError ''HTTPError'') \<and>
   get_articles sample_net [py ''a'', py ''d'', py ''c''] = Inl (NameError ''HTTPError'') \<and>
   get_articles sample_net [py ''a'', py ''c''] =
     Inr [\<lparr> status_code = 200, body = py ''<p>revenue</p>'' \<rparr>,
          \<lparr> status_code = 200, body = py ''<p>margin</p>'' \<rparr>]"
  by (simp add: get_articles_def try_body_def sample_net_def raise_for_status_def
      except_clauses_def script_names_def builtin_names_def py_def)

section \<open>Counting and indexing: properties\<close>

subsection \<open>Counter\<close>

lemma first_seen_snoc:
  "first_seen (xs @ [x]) = (if x \<in> set xs then first_seen xs else first_seen xs @ [x])"
  by (simp add: first_seen_def)

lemma set_first_seen [simp]: "set (first_seen xs) = set xs"
  by (simp add: first_seen_def)

lemma distinct_first_seen [simp]: "distinct (first_seen xs)"
  by (simp add: first_seen_def)

lemma keys_count_elem:
  "map fst (count_elem k d) = (if k \<in> set (map fst d) then map fst d else map fst d @ [k])"
  by (simp add: count_elem_def update_keys)

lemma map_of_count_elem:
  "map_of (count_elem k d) =
     (map_of d)(k \<mapsto> (case map_of d k of None \<Rightarrow> 0 | Some c \<Rightarrow> c) + 1)"
  by (simp add: count_elem_def update_conv')

lemma Counter_snoc: "Counter (xs @ [x]) = count_elem x (Counter xs)"
  by (simp add: Counter_def)

lemma Counter_keys: "map fst (Counter xs) = first_seen xs"
proof (induction xs rule: rev_induct)
  case Nil
  show ?case by (simp add: Counter_def first_seen_def)
next
  case (snoc x xs)
  have "set (map fst (Counter xs)) = set xs"
    by (simp add: snoc.IH)
  then show ?case
    by (simp add: Counter_snoc keys_count_elem first_seen_snoc snoc.IH)
qed

lemma Counter_map_of:
  "map_of (Counter xs) w = (if w \<in> set xs then Some (count_list xs w) else None)"
proof (induction xs rule: rev_induct)
  case Nil
  show ?case by (simp add: Counter_def)
next
  case (snoc x xs)
  then show ?case
    by (auto simp: Counter_snoc map_of_count_elem)
qed

lemma Counter_items:
  "Counter xs = map (\<lambda>w. (w, count_list xs w)) (first_seen xs)"
proof (rule nth_equalityI)
  show "length (Counter xs) = length (map (\<lambda>w. (w, count_list xs w)) (first_seen xs))"
    using Counter_keys [of xs] by (metis length_map)
next
  fix i assume i: "i < length (Counter xs)"
  have d: "distinct (map fst (Counter xs))" by (simp add: Counter_keys)
  have len: "length (Counter xs) = length (first_seen xs)"
    using Counter_keys [of xs] by (metis length_map)
  have k: "fst (Counter xs ! i) = first_seen xs ! i"
    using Counter_keys [of xs] i by (metis nth_map)
  have "Counter xs ! i \<in> set (Counter xs)" using i by simp
  then have "map_of (Counter xs) (fst (Counter xs ! i)) = Some (snd (Counter xs ! i))"
    using d by simp
  moreover have "first_seen xs ! i \<in> set xs"
    using i len by (metis nth_mem set_first_seen)
  ultimately have "snd (Counter xs ! i) = count_list xs (first_seen xs ! i)"
    by (simp add: Counter_map_of k)
  with k i len show "Counter xs ! i = map (\<lambda>w. (w, count_list xs w)) (first_seen xs) ! i"
    by (simp add: prod_eq_iff)
qed

subsection \<open>most\_common\<close>

lemma sorted_by_count_desc_mset: "mset (sorted_by_count_desc c) = mset c"
  by (simp add: sorted_by_count_desc_def)

lemma sorted_by_count_desc_sorted:
  "sorted_wrt (\<lambda>a b. snd b \<le> snd a) (sorted_by_count_desc c)"
proof -
  have "sorted (map (\<lambda>kv. - int (snd kv)) (sorted_by_count_desc c))"
    by (simp add: sorted_by_count_desc_def)
  then show ?thesis by (simp add: sorted_map)
qed

lemma sorted_by_count_desc_stable:
  "filter (\<lambda>kv. snd kv = k) (sorted_by_count_desc c) = filter (\<lambda>kv. snd kv = k) c"
proof -
  have "filter (\<lambda>kv. - int (snd kv) = - int k) (sort_key (\<lambda>kv. - int (snd kv)) c)
        = filter (\<lambda>kv. - int (snd kv) = - int k) c"
    by (rule sort_key_stable)
  then show ?thesis by (simp add: sorted_by_count_desc_def)
qed

text \<open>
  Claim C7. The counter of a token sequence holds each distinct token with the number of
  its occurrences, the tokens in the order they were first met. The list that every
  "most common \<open>n\<close>" query cuts its answer from holds the same items, sorted by falling
  count, and the items of any one count \<open>k\<close> stand in it in the order their tokens were
  first met in the input. The script's two queries are \<open>n = 10\<close> on the lower-case tokens
  and \<open>n = 20\<close> on the lemmatized ones.
\<close>

theorem most_common_ties_first_seen:
  "Counter tokens = map (\<lambda>w. (w, count_list tokens w)) (first_seen tokens) \<and>
   most_common n (Counter tokens) = take n (sorted_by_count_desc (Counter tokens)) \<and>
   mset (sorted_by_count_desc (Counter tokens)) = mset (Counter tokens) \<and>
   sorted_wrt (\<lambda>a b. snd b \<le> snd a) (sorted_by_count_desc (Counter tokens)) \<and>
   filter (\<lambda>kv. snd kv = k) (sorted_by_count_desc (Counter tokens)) =
     map (\<lambda>w. (w, k)) (filter (\<lambda>w. count_list tokens w = k) (first_seen tokens)) \<and>
   bow_simple_printed L raw =
     take 10 (sorted_by_count_desc (Counter (lower_tokens L raw))) \<and>
   bow_printed L raw = take 20 (sorted_by_count_desc (Counter (lemmatized L raw)))"
proof -
  have "filter (\<lambda>kv. snd kv = k) (Counter tokens) =
     map (\<lambda>w. (w, k)) (filter (\<lambda>w. count_list tokens w = k) (first_seen tokens))"
    by (subst Counter_items) (simp add: filter_map comp_def cong: map_cong)
  then show ?thesis
    using Counter_items [of tokens] sorted_by_count_desc_mset [of "Counter tokens"]
      sorted_by_count_desc_sorted [of "Counter tokens"]
      sorted_by_count_desc_stable [of k "Counter tokens"]
    by (simp add: most_common_def bow_simple_printed_def bow_printed_def bow_simple_def
        bow_def)
qed

subsection \<open>defaultdict and the corpus totals\<close>

lemma update_fresh: "k \<notin> fst ` set d \<Longrightarrow> AList.update k v d = d @ [(k, v)]"
  by (induction d) auto

lemma update_last: "k \<notin> fst ` set d \<Longrightarrow> AList.update k v (d @ [(k, x)]) = d @ [(k, v)]"
  by (induction d) auto

lemma dd_iadd_update: "dd_iadd k n d = AList.update k (count_at d k + n) d"
proof (cases "map_of d k")
  case None
  then have "k \<notin> fst ` set d" by (simp add: map_of_eq_None_iff)
  with None show ?thesis
    by (simp add: dd_iadd_def dd_getitem_def count_at_def update_fresh update_last)
next
  case (Some v)
  then show ?thesis by (simp add: dd_iadd_def dd_getitem_def count_at_def)
qed

lemma dd_iadd_one: "dd_iadd w 1 d = count_elem w d"
  unfolding dd_iadd_update count_elem_def count_at_def by simp

lemma count_at_Nil [simp]: "count_at [] j = 0"
  by (simp add: count_at_def)

lemma count_at_dd_iadd:
  "count_at (dd_iadd k n d) j = (if j = k then count_at d k + n else count_at d j)"
  by (simp add: dd_iadd_update count_at_def update_conv')

lemma keys_dd_iadd: "fst ` set (dd_iadd k n d) = insert k (fst ` set d)"
  by (simp add: dd_iadd_update update_conv' flip: dom_map_of_conv_image_fst)

lemma distinct_dd_iadd: "distinct (map fst d) \<Longrightarrow> distinct (map fst (dd_iadd k n d))"
  by (simp add: dd_iadd_update distinct_update)

lemma count_at_add_entries:
  "count_at (add_entries ps d) j =
     count_at d j + sum_list (map snd (filter (\<lambda>p. fst p = j) ps))"
  unfolding add_entries_def
  by (induction ps arbitrary: d) (auto simp: count_at_dd_iadd)

lemma keys_add_entries: "fst ` set (add_entries ps d) = fst ` set d \<union> fst ` set ps"
  unfolding add_entries_def
  by (induction ps arbitrary: d) (simp_all add: keys_dd_iadd split_beta)

lemma distinct_add_entries:
  "distinct (map fst d) \<Longrightarrow> distinct (map fst (add_entries ps d))"
  unfolding add_entries_def
  by (induction ps arbitrary: d) (auto simp: distinct_dd_iadd)

lemma count_at_Some: "map_of d j = Some c \<Longrightarrow> count_at d j = c"
  by (simp add: count_at_def)

lemma map_of_by_count_at:
  "map_of d j = (if j \<in> fst ` set d then Some (count_at d j) else None)"
  by (cases "map_of d j") (auto simp: count_at_def map_of_eq_None_iff dest: map_of_SomeD intro: rev_image_eqI)

lemma total_word_count_entries:
  "map_of (total_word_count corpus) j =
     (if j \<in> fst ` set (concat corpus)
      then Some (sum_list (map snd (filter (\<lambda>p. fst p = j) (concat corpus))))
      else None)"
proof -
  have t: "total_word_count corpus = add_entries (concat corpus) []"
    by (simp add: total_word_count_def add_entries_def)
  show ?thesis
    by (subst map_of_by_count_at)
      (simp add: t keys_add_entries count_at_add_entries)
qed

lemma mset_concat_cong:
  assumes "mset xss = mset yss"
  shows "mset (concat xss) = mset (concat yss)"
proof -
  have "mset (concat zs) = sum_mset (image_mset mset (mset zs))" for zs :: "'a list list"
    by (induction zs) simp_all
  with assms show ?thesis by simp
qed

lemma entries_sum_mset:
  "sum_list (map snd (filter P ps)) = sum_mset (image_mset snd (filter_mset P (mset ps)))"
  by (induction ps) simp_all

text \<open>
  Claim C6. The corpus totals do not depend on the order of the documents: for every
  sequence of document vectors and every permutation of it the totals are the same
  mapping from id to count. The total of an id is the sum of the counts the vectors hold
  for it, and the totals of two corpora put together are the sums of their totals.
\<close>

theorem corpus_totals_order_independent:
  assumes "mset corpus' = mset corpus"
  shows "map_of (total_word_count corpus') = map_of (total_word_count corpus) \<and>
         (\<forall>i. count_at (total_word_count corpus) i =
               sum_list (map snd (filter (\<lambda>p. fst p = i) (concat corpus)))) \<and>
         (\<forall>i. count_at (total_word_count (corpus @ rest)) i =
               count_at (total_word_count corpus) i + count_at (total_word_count rest) i)"
proof -
  have m: "mset (concat corpus') = mset (concat corpus)"
    using assms by (rule mset_concat_cong)
  then have s: "set (concat corpus') = set (concat corpus)"
    by (rule mset_eq_setD)
  have "map_of (total_word_count corpus') j = map_of (total_word_count corpus) j" for j
    unfolding total_word_count_entries entries_sum_mset using m s by simp
  then have "map_of (total_word_count corpus') = map_of (total_word_count corpus)"
    by (rule ext)
  moreover have c: "count_at (total_word_count xs) i =
      sum_list (map snd (filter (\<lambda>p. fst p = i) (concat xs)))" for xs i
    by (simp add: total_word_count_def count_at_add_entries [unfolded add_entries_def])
  ultimately show ?thesis by (simp add: c)
qed

theorem corpus_totals_order_independent_witness:
  "mset [[(0, 1), (2, 1)], [(0, 1), (1, 2::nat)]] = mset [[(0::nat, 1), (1, 2)], [(0, 1), (2, 1)]] \<and>
   total_word_count [[(0, 1), (1, 2)], [(0, 1), (2, 1)]] = [(0, 2), (1, 2), (2, 1)] \<and>
   total_word_count [[(0, 1), (2, 1)], [(0, 1), (1, 2)]] = [(0, 2), (2, 1), (1, 2)] \<and>
   map_of [(0, 2), (2, 1), (1, 2::nat)] = map_of [(0::nat, 2), (1, 2), (2, 1)]"
proof -
  have p: "mset [[(0, 1), (2, 1)], [(0, 1), (1, 2::nat)]] =
      mset [[(0::nat, 1), (1, 2)], [(0, 1), (2, 1)]]"
    by (simp add: add.commute)
  have e1: "total_word_count [[(0, 1), (1, 2)], [(0, 1), (2, 1)]] = [(0, 2), (1, 2), (2, 1)]"
    by (simp add: total_word_count_def dd_iadd_def dd_getitem_def)
  have e2: "total_word_count [[(0, 1), (2, 1)], [(0, 1), (1, 2)]] = [(0, 2), (2, 1), (1, 2)]"
    by (simp add: total_word_count_def dd_iadd_def dd_getitem_def)
  from corpus_totals_order_independent [OF p, of "[]"] p e1 e2 show ?thesis by simp
qed

subsection \<open>The ids the dictionary hands out\<close>

lemma doc_counter: "fold (\<lambda>w. dd_iadd w 1) document [] = Counter document"
proof -
  have h: "(\<lambda>w. dd_iadd w 1) = count_elem"
    by (intro ext) (rule dd_iadd_one)
  show ?thesis by (simp only: Counter_def h)
qed

lemma fst_mono_prod: "(p :: 'a::linorder \<times> 'b::linorder) \<le> q \<Longrightarrow> fst p \<le> fst q"
  by (auto simp: less_eq_prod_def)

lemma sorted_map_fst:
  "sorted (ps :: ('a::linorder \<times> 'b::linorder) list) \<Longrightarrow> sorted (map fst ps)"
  by (induction ps) (auto simp: fst_mono_prod)

lemma map_fst_sort:
  "map fst (sort (ps :: ('a::linorder \<times> 'b::linorder) list)) = sort (map fst ps)"
proof -
  have "mset (map fst (sort ps)) = mset (map fst ps)" by simp
  moreover have "sorted (map fst (sort ps))" by (rule sorted_map_fst) simp
  ultimately show ?thesis by (rule properties_for_sort [symmetric])
qed

lemma sort_distinct: "distinct xs \<Longrightarrow> sort xs = sorted_list_of_set (set xs)"
  by (simp add: sorted_list_of_set_sort_remdups distinct_remdups_id)

lemma missing_words:
  "map fst (sort (filter (\<lambda>x. map_of T (fst x) = None) (Counter document))) =
     new_words (map fst T) document"
proof -
  let ?Q = "\<lambda>w. map_of T w = None"
  have "map fst (filter (\<lambda>x. ?Q (fst x)) (Counter document)) = filter ?Q (first_seen document)"
    by (simp add: filter_map comp_def flip: Counter_keys)
  moreover have "sort (filter ?Q (first_seen document)) =
      sorted_list_of_set (set (filter ?Q (first_seen document)))"
    by (rule sort_distinct) simp
  moreover have "set (filter ?Q (first_seen document)) = set document - set (map fst T)"
    by (auto simp: map_of_eq_None_iff)
  ultimately show ?thesis by (simp add: map_fst_sort new_words_def)
qed

lemma assign_ids:
  "distinct (map fst ms) \<Longrightarrow> fst ` set ms \<inter> fst ` set T = {} \<Longrightarrow>
     fold (\<lambda>(w, _) t. AList.update w (length t) t) ms T =
       T @ zip (map fst ms) [length T ..< length T + length ms]"
proof (induction ms arbitrary: T)
  case Nil
  then show ?case by simp
next
  case (Cons m ms)
  obtain w c where m: "m = (w, c)" by (cases m)
  from Cons.prems m have fresh: "w \<notin> fst ` set T" by auto
  let ?T = "T @ [(w, length T)]"
  have step: "AList.update w (length T) T = ?T"
    using fresh by (rule update_fresh)
  have d: "distinct (map fst ms)" using Cons.prems by simp
  have disj: "fst ` set ms \<inter> fst ` set ?T = {}"
    using Cons.prems m by (auto simp: image_iff)
  have "fold (\<lambda>(w, _) t. AList.update w (length t) t) ms ?T =
      ?T @ zip (map fst ms) [length ?T ..< length ?T + length ms]"
    using d disj by (rule Cons.IH)
  moreover have "[length T ..< length T + length (m # ms)] =
      length T # [length ?T ..< length ?T + length ms]"
    by (simp add: upt_conv_Cons del: upt_Suc)
  ultimately show ?case
    by (simp only: m fold_simps step list.map fst_conv zip_Cons_Cons append_assoc
        append_Cons append_Nil case_prod_conv comp_apply)
qed

lemma doc2bow_gen_update:
  "token2id (fst (doc2bow_gen True self document)) =
     token2id self @
       zip (new_words (map fst (token2id self)) document)
         [length (token2id self) ..<
            length (token2id self) + length (new_words (map fst (token2id self)) document)]"
proof -
  let ?T = "token2id self"
  let ?ms = "sort (filter (\<lambda>x. map_of ?T (fst x) = None) (Counter document))"
  have k: "map fst ?ms = new_words (map fst ?T) document"
    by (rule missing_words)
  have d: "distinct (map fst ?ms)"
    by (simp add: k new_words_def)
  have disj: "fst ` set ?ms \<inter> fst ` set ?T = {}"
  proof -
    have "fst ` set ?ms = set (map fst ?ms)" by simp
    also have "\<dots> = set document - set (map fst ?T)"
      by (simp only: k) (simp add: new_words_def)
    finally show ?thesis by auto
  qed
  have "fold (\<lambda>(w, _) t. AList.update w (length t) t) ?ms ?T =
      ?T @ zip (map fst ?ms) [length ?T ..< length ?T + length ?ms]"
    using d disj by (rule assign_ids)
  moreover have "length ?ms = length (new_words (map fst ?T) document)"
    using k by (metis length_map)
  ultimately show ?thesis
    unfolding doc2bow_gen_def Let_def doc_counter by (simp add: k)
qed

lemma add_documents_order:
  "ids_in_order (token2id self) \<Longrightarrow>
     ids_in_order (token2id (add_documents documents self)) \<and>
     map fst (token2id (add_documents documents self)) =
       fold (\<lambda>doc seen. seen @ new_words seen doc) documents (map fst (token2id self))"
proof (induction documents arbitrary: self)
  case Nil
  then show ?case by (simp add: add_documents_def)
next
  case (Cons doc docs)
  let ?T = "token2id self"
  let ?d = "fst (doc2bow_gen True self doc)"
  let ?nw = "new_words (map fst ?T) doc"
  have T': "token2id ?d = ?T @ zip ?nw [length ?T ..< length ?T + length ?nw]"
    by (rule doc2bow_gen_update)
  have keys: "map fst (token2id ?d) = map fst ?T @ ?nw"
    by (simp add: T')
  have "map snd (token2id ?d) = [0..<length ?T] @ [length ?T ..< length ?T + length ?nw]"
    using Cons.prems by (simp add: T' ids_in_order_def)
  also have "\<dots> = [0..<length ?T + length ?nw]"
    by (simp add: upt_add_eq_append [symmetric])
  finally have ids: "map snd (token2id ?d) = [0..<length (token2id ?d)]"
    by (simp add: T')
  have "distinct (map fst ?T @ ?nw)"
    using Cons.prems by (auto simp: ids_in_order_def new_words_def)
  with ids keys have inv: "ids_in_order (token2id ?d)"
    by (simp add: ids_in_order_def)
  have "add_documents (doc # docs) self = add_documents docs ?d"
    by (simp add: add_documents_def)
  with Cons.IH [OF inv] keys show ?case by simp
qed

lemma Dictionary_token2id:
  "token2id (Dictionary documents) = zip (id_order documents) [0..<length (id_order documents)]"
proof -
  have inv: "ids_in_order (token2id \<lparr>token2id = []\<rparr>)"
    by (simp add: ids_in_order_def)
  from add_documents_order [OF inv, of documents]
  have s: "map snd (token2id (Dictionary documents)) = [0..<length (token2id (Dictionary documents))]"
    and k: "map fst (token2id (Dictionary documents)) = id_order documents"
    by (simp_all add: Dictionary_def ids_in_order_def id_order_def)
  have "token2id (Dictionary documents) =
      zip (map fst (token2id (Dictionary documents))) (map snd (token2id (Dictionary documents)))"
    by (simp add: zip_map_fst_snd)
  also have "\<dots> = zip (id_order documents) [0..<length (id_order documents)]"
    using s k by (metis length_map)
  finally show ?thesis .
qed

lemma id_order_fold:
  "distinct seen \<Longrightarrow>
     distinct (fold (\<lambda>doc seen. seen @ new_words seen doc) documents seen) \<and>
     set (fold (\<lambda>doc seen. seen @ new_words seen doc) documents seen) =
       set seen \<union> set (concat documents)"
proof (induction documents arbitrary: seen)
  case Nil
  then show ?case by simp
next
  case (Cons doc docs)
  have "distinct (seen @ new_words seen doc)"
    using Cons.prems by (auto simp: new_words_def)
  from Cons.IH [OF this] show ?case
    by (auto simp: new_words_def)
qed

lemma id_order_distinct: "distinct (id_order documents)"
  and id_order_set: "set (id_order documents) = set (concat documents)"
  using id_order_fold [of "[]" documents] by (simp_all add: id_order_def)

lemma example_token2id:
  "token2id (Dictionary example_documents) =
     [(py ''benefit'', 0), (py ''cost'', 1), (py ''analysis'', 2)]"
  by (simp add: Dictionary_def add_documents_def doc2bow_gen_def example_documents_def
      dd_iadd_def dd_getitem_def py_def Let_def)

lemma example_first_appearance:
  "first_appearance_vocabulary example_documents =
     [(py ''cost'', 0), (py ''benefit'', 1), (py ''analysis'', 2)]"
  by (simp add: first_appearance_vocabulary_def first_seen_def example_documents_def py_def
      Let_def upt_rec)

lemma example_corpus:
  "corpus_of example_documents = [[(0, 1), (1, 2)], [(0, 1), (2, 1)]]"
  unfolding corpus_of_def doc2bow_def doc2bow_gen_def Let_def example_token2id
  by (simp add: example_documents_def dd_iadd_def dd_getitem_def py_def)

lemma example_totals:
  "total_word_count (corpus_of example_documents) = [(0, 2), (1, 2), (2, 1)]"
  unfolding example_corpus
  by (simp add: total_word_count_def dd_iadd_def dd_getitem_def)

text \<open>
  Claim C2, as the specification states it: every distinct token gets its id in the order
  of first appearance, so that the documents \<open>[cost, cost, benefit]\<close> and
  \<open>[benefit, analysis]\<close> give \<open>{cost: 0, benefit: 1, analysis: 2}\<close>. The dictionary sorts
  the new words of each document before it numbers them: it gives \<open>benefit\<close> the id 0 and
  \<open>cost\<close> the id 1.
\<close>

theorem first_appearance_ids_counterexample:
  "token2id (Dictionary example_documents) \<noteq> first_appearance_vocabulary example_documents \<and>
   first_appearance_vocabulary example_documents =
     [(py ''cost'', 0), (py ''benefit'', 1), (py ''analysis'', 2)] \<and>
   token2id (Dictionary example_documents) =
     [(py ''benefit'', 0), (py ''cost'', 1), (py ''analysis'', 2)] \<and>
   token2id_get (Dictionary example_documents) (py ''cost'') = Some 1"
  unfolding token2id_get_def example_token2id example_first_appearance
  by (simp add: py_def)

text \<open>
  Claim C2, amended. Every distinct token of the documents gets exactly one id, and the
  ids are \<open>0, 1, 2, \<dots>\<close> along \<open>id_order\<close>: the documents in input order, and within a
  document the words not seen in an earlier document, in ascending string order. For the
  two documents of the example the vocabulary is \<open>{benefit: 0, cost: 1, analysis: 2}\<close>.
\<close>

theorem dictionary_ids_by_document_sorted:
  "token2id (Dictionary documents) =
     zip (id_order documents) [0..<length (id_order documents)] \<and>
   distinct (id_order documents) \<and>
   set (id_order documents) = set (concat documents) \<and>
   id_order [] = [] \<and>
   id_order (documents @ [doc]) = id_order documents @ new_words (id_order documents) doc \<and>
   new_words seen doc = sorted_list_of_set (set doc - set seen) \<and>
   token2id (Dictionary example_documents) =
     [(py ''benefit'', 0), (py ''cost'', 1), (py ''analysis'', 2)]"
  using Dictionary_token2id [of documents] id_order_distinct [of documents]
    id_order_set [of documents] example_token2id
  by (simp add: id_order_def new_words_def)

subsection \<open>Document vectors\<close>

lemma fold_update_distinct:
  "distinct (map kf xs) \<Longrightarrow> kf ` set xs \<inter> fst ` set acc = {} \<Longrightarrow>
     fold (\<lambda>x. AList.update (kf x) (vf x)) xs acc = acc @ map (\<lambda>x. (kf x, vf x)) xs"
proof (induction xs arbitrary: acc)
  case Nil
  then show ?case by simp
next
  case (Cons x xs)
  from Cons.prems have fresh: "kf x \<notin> fst ` set acc" by auto
  have step: "AList.update (kf x) (vf x) acc = acc @ [(kf x, vf x)]"
    using fresh by (rule update_fresh)
  have d: "distinct (map kf xs)" using Cons.prems by simp
  have disj: "kf ` set xs \<inter> fst ` set (acc @ [(kf x, vf x)]) = {}"
    using Cons.prems by (auto simp: image_iff)
  from Cons.IH [OF d disj] show ?case by (simp add: step)
qed

lemma unique_ids:
  "distinct (map snd T) \<Longrightarrow> map_of T a = Some i \<Longrightarrow> map_of T b = Some i \<Longrightarrow> a = b"
proof -
  assume d: "distinct (map snd T)" and a: "map_of T a = Some i" and b: "map_of T b = Some i"
  from d have "inj_on snd (set T)" by (simp add: distinct_map)
  moreover have "(a, i) \<in> set T" "(b, i) \<in> set T"
    using a b by (auto dest: map_of_SomeD)
  ultimately show "a = b"
    using inj_onD [of snd "set T" "(a, i)" "(b, i)"] by simp
qed

lemma doc2bow_unsorted:
  assumes "distinct (map snd (token2id self))"
  shows "fold (\<lambda>(w, freq). AList.update (the (map_of (token2id self) w)) freq)
           (filter (\<lambda>x. map_of (token2id self) (fst x) \<noteq> None) (Counter document)) [] =
         map (\<lambda>w. (the (map_of (token2id self) w), count_list document w))
           (filter (\<lambda>w. map_of (token2id self) w \<noteq> None) (first_seen document))"
    (is "fold ?f ?F [] = map ?e ?W")
proof -
  let ?T = "token2id self"
  let ?kf = "\<lambda>x :: pystr \<times> nat. the (map_of ?T (fst x))"
  have F: "?F = map (\<lambda>w. (w, count_list document w)) ?W"
    by (subst Counter_items) (simp add: filter_map comp_def)
  have inj: "inj_on (\<lambda>w. the (map_of ?T w)) (set ?W)"
  proof (rule inj_onI)
    fix a b assume "a \<in> set ?W" "b \<in> set ?W"
      and e: "the (map_of ?T a) = the (map_of ?T b)"
    then obtain i j where "map_of ?T a = Some i" "map_of ?T b = Some j" by auto
    with e assms show "a = b" by (auto dest: unique_ids)
  qed
  have "map ?kf ?F = map (\<lambda>w. the (map_of ?T w)) ?W"
    unfolding F by (simp add: comp_def)
  moreover have "distinct (map (\<lambda>w. the (map_of ?T w)) ?W)"
    using inj by (simp add: distinct_map)
  ultimately have d: "distinct (map ?kf ?F)" by simp
  have f: "?f = (\<lambda>x. AList.update (?kf x) (snd x))"
    by (simp add: fun_eq_iff)
  have "fold (\<lambda>x. AList.update (?kf x) (snd x)) ?F [] = [] @ map (\<lambda>x. (?kf x, snd x)) ?F"
    using d by (rule fold_update_distinct) simp
  moreover have "map (\<lambda>x. (?kf x, snd x)) ?F = map ?e ?W"
    unfolding F by (simp add: comp_def)
  ultimately show ?thesis
    by (simp only: f append_Nil)
qed

lemma doc2bow_eq:
  assumes "distinct (map snd (token2id self))"
  shows "doc2bow self document =
         sort (map (\<lambda>w. (the (map_of (token2id self) w), count_list document w))
           (filter (\<lambda>w. map_of (token2id self) w \<noteq> None) (first_seen document)))"
  unfolding doc2bow_def doc2bow_gen_def Let_def doc_counter
  using doc2bow_unsorted [OF assms, of document] by simp

lemma count_list_filter:
  "count_list (filter P xs) w = (if P w then count_list xs w else 0)"
  by (induction xs) auto

lemma sum_counts_filter:
  "sum_list (map (count_list xs) (filter P (first_seen xs))) = length (filter P xs)"
proof -
  let ?ys = "filter P xs"
  have "sum_list (map (count_list xs) (filter P (first_seen xs))) =
      sum (count_list xs) (set (filter P (first_seen xs)))"
    by (rule sum_list_distinct_conv_sum_set) simp
  also have "set (filter P (first_seen xs)) = set ?ys" by auto
  also have "sum (count_list xs) (set ?ys) = sum (count_list ?ys) (set ?ys)"
    by (rule sum.cong) (auto simp: count_list_filter)
  also have "\<dots> = length ?ys"
    by (rule sum_count_set) simp_all
  finally show ?thesis .
qed

lemma sum_list_sort: "sum_list (map snd (sort ps)) = sum_list (map snd (ps :: (nat \<times> nat) list))"
proof -
  have "mset (map snd (sort ps)) = mset (map snd ps)" by simp
  then show ?thesis by (metis sum_mset_sum_list)
qed

lemma doc2bow_sum:
  assumes "distinct (map snd (token2id self))"
  shows "sum_list (map snd (doc2bow self document)) =
         length (filter (\<lambda>w. token2id_get self w \<noteq> None) document)"
  by (simp add: doc2bow_eq [OF assms] sum_list_sort comp_def sum_counts_filter
      token2id_get_def)

lemma map_of_sort:
  "distinct (map fst ps) \<Longrightarrow> map_of (sort ps) = map_of (ps :: (nat \<times> nat) list)"
proof (rule map_of_inject_set [THEN iffD2])
  assume d: "distinct (map fst ps)"
  have "mset (map fst (sort ps)) = mset (map fst ps)" by simp
  then show "distinct (map fst (sort ps))"
    using d by (metis mset_eq_imp_distinct_iff)
  show "distinct (map fst ps)" by (rule d)
  show "set (sort ps) = set ps" by simp
qed

lemma map_of_map_inj:
  "inj_on f (set ws) \<Longrightarrow> w \<in> set ws \<Longrightarrow> map_of (map (\<lambda>w. (f w, g w)) ws) (f w) = Some (g w)"
  by (induction ws) (auto simp: inj_on_def)

lemma doc2bow_entry:
  assumes d: "distinct (map snd (token2id self))"
  shows "map_of (doc2bow self document) i =
         (if i \<in> (\<lambda>w. the (token2id_get self w)) `
                   {w \<in> set document. token2id_get self w \<noteq> None}
          then Some (length (filter (\<lambda>w. token2id_get self w = Some i) document))
          else None)"
proof -
  let ?T = "token2id self"
  let ?id = "\<lambda>w. the (map_of ?T w)"
  let ?W = "filter (\<lambda>w. map_of ?T w \<noteq> None) (first_seen document)"
  let ?R = "map (\<lambda>w. (?id w, count_list document w)) ?W"
  have inj: "inj_on ?id (set ?W)"
  proof (rule inj_onI)
    fix a b assume "a \<in> set ?W" "b \<in> set ?W" and e: "?id a = ?id b"
    then obtain i j where "map_of ?T a = Some i" "map_of ?T b = Some j" by auto
    with e d show "a = b" by (auto dest: unique_ids)
  qed
  have dR: "distinct (map fst ?R)"
    using inj by (simp add: comp_def distinct_map)
  have eq: "map_of (doc2bow self document) = map_of ?R"
    by (simp only: doc2bow_eq [OF d] map_of_sort [OF dR])
  have setW: "set ?W = {w \<in> set document. map_of ?T w \<noteq> None}" by auto
  show ?thesis
  proof (cases "i \<in> ?id ` set ?W")
    case True
    then obtain w where w: "w \<in> set ?W" and i: "i = ?id w" by blast
    then have wi: "map_of ?T w = Some i" by auto
    have "map_of ?R (?id w) = Some (count_list document w)"
      using inj w by (rule map_of_map_inj)
    moreover have "filter (\<lambda>v. map_of ?T v = Some i) document = filter ((=) w) document"
      by (rule filter_cong) (use wi d in \<open>auto dest: unique_ids\<close>)
    ultimately show ?thesis
      using True by (simp add: eq i [symmetric] token2id_get_def setW
          count_list_eq_length_filter)
  next
    case False
    then have "i \<notin> fst ` set ?R" by (simp add: image_image)
    then have "map_of ?R i = None" by (simp add: map_of_eq_None_iff)
    with False show ?thesis by (simp add: eq token2id_get_def setW)
  qed
qed

lemma Dictionary_unique_ids: "distinct (map snd (token2id (Dictionary documents)))"
proof -
  have "map snd (token2id (Dictionary documents)) = [0..<length (id_order documents)]"
    by (simp add: Dictionary_token2id)
  then show ?thesis by simp
qed

text \<open>
  Claim C5. For every document and every vocabulary (a \<^verbatim>\<open>token2id\<close> in which no two
  tokens share an id, as in every dictionary built by \<open>Dictionary\<close>), the counts of the
  vector \<^verbatim>\<open>doc2bow\<close> returns add up to the number of tokens of the document that are
  in the vocabulary; the count the vector holds for an id is the number of tokens of the
  document with that id, and an id is absent from the vector exactly when no token of the
  document has it, so that its implicit count 0 is its true count.
\<close>

theorem doc2bow_sum_invariant:
  assumes "distinct (map snd (token2id vocab))"
  shows "sum_list (map snd (doc2bow vocab document)) =
           length (filter (\<lambda>w. token2id_get vocab w \<noteq> None) document) \<and>
         count_at (doc2bow vocab document) i =
           length (filter (\<lambda>w. token2id_get vocab w = Some i) document) \<and>
         (i \<notin> fst ` set (doc2bow vocab document)) =
           (filter (\<lambda>w. token2id_get vocab w = Some i) document = [])"
proof -
  let ?n = "length (filter (\<lambda>w. token2id_get vocab w = Some i) document)"
  let ?I = "(\<lambda>w. the (token2id_get vocab w)) `
              {w \<in> set document. token2id_get vocab w \<noteq> None}"
  have e: "map_of (doc2bow vocab document) i = (if i \<in> ?I then Some ?n else None)"
    using assms by (rule doc2bow_entry)
  have I: "i \<in> ?I \<longleftrightarrow> filter (\<lambda>w. token2id_get vocab w = Some i) document \<noteq> []"
    by (force simp: filter_empty_conv image_iff)
  have "count_at (doc2bow vocab document) i = ?n"
    using e I by (auto simp: count_at_def)
  moreover have "(i \<notin> fst ` set (doc2bow vocab document)) =
      (filter (\<lambda>w. token2id_get vocab w = Some i) document = [])"
    using e I by (simp add: map_of_eq_None_iff [symmetric])
  ultimately show ?thesis
    using doc2bow_sum [OF assms, of document] by simp
qed

theorem doc2bow_sum_invariant_witness:
  "distinct (map snd (token2id (Dictionary example_documents))) \<and>
   doc2bow (Dictionary example_documents)
     [py ''cost'', py ''cost'', py ''benefit'', py ''margin''] = [(0, 1), (1, 2)] \<and>
   sum_list (map snd (doc2bow (Dictionary example_documents)
     [py ''cost'', py ''cost'', py ''benefit'', py ''margin''])) = 3 \<and>
   length (filter (\<lambda>w. token2id_get (Dictionary example_documents) w \<noteq> None)
     [py ''cost'', py ''cost'', py ''benefit'', py ''margin'']) = 3 \<and>
   count_at (doc2bow (Dictionary example_documents)
     [py ''cost'', py ''cost'', py ''benefit'', py ''margin'']) 2 = 0"
proof -
  let ?doc = "[py ''cost'', py ''cost'', py ''benefit'', py ''margin'']"
  have h: "distinct (map snd (token2id (Dictionary example_documents)))"
    by (rule Dictionary_unique_ids)
  have ev: "doc2bow (Dictionary example_documents) ?doc = [(0, 1), (1, 2)]"
    unfolding doc2bow_def doc2bow_gen_def Let_def example_token2id
    by (simp add: dd_iadd_def dd_getitem_def py_def)
  have n: "length (filter (\<lambda>w. token2id_get (Dictionary example_documents) w \<noteq> None) ?doc) = 3"
    unfolding token2id_get_def example_token2id by (simp add: py_def)
  from doc2bow_sum_invariant [OF h, of ?doc 2] h ev n show ?thesis
    by simp
qed

subsection \<open>Lookups of what is not there\<close>

text \<open>
  Claim C4, as the specification states it: a lookup of an id that is not present returns
  a signal that differs from a present entry with count zero, and the totals never report
  zero for an id they have not seen. The totals are a \<^verbatim>\<open>defaultdict(int)\<close>: the id 7
  occurs nowhere in the corpus of the example, reading it returns 0, the read stores it
  with count 0, and that is what reading a present entry with count zero returns.
\<close>

theorem unseen_id_reads_zero_counterexample:
  "map_of (total_word_count (corpus_of example_documents)) 7 = None \<and>
   fst (dd_getitem 7 (total_word_count (corpus_of example_documents))) = 0 \<and>
   map_of (snd (dd_getitem 7 (total_word_count (corpus_of example_documents)))) 7 = Some 0 \<and>
   fst (dd_getitem 7 (total_word_count (corpus_of example_documents))) =
     fst (dd_getitem 7 (total_word_count (corpus_of example_documents) @ [(7, 0)]))"
  unfolding example_totals by (simp add: dd_getitem_def)

lemma dictionary_get_None_iff:
  "(dictionary_get vocab (Some i) = None) = (i \<notin> snd ` set (token2id vocab))"
  by (force simp: dictionary_get_def map_of_eq_None_iff image_iff)

text \<open>
  Claim C4, amended. The two lookups into the vocabulary signal absence:
  \<^verbatim>\<open>token2id.get(token)\<close> is \<^verbatim>\<open>None\<close> exactly for a token that is not in the
  vocabulary, \<^verbatim>\<open>dictionary.get(id)\<close> is \<^verbatim>\<open>None\<close> exactly for an id that is not, and
  for the \<^verbatim>\<open>None\<close> the first lookup may have returned. Reading the totals at an id
  some document holds returns the sum of its counts and leaves the totals as they are;
  reading them at an id no document holds returns 0 and appends that id with count 0.
\<close>

theorem lookups_absent_signal:
  "(token2id_get vocab token = None) = (token \<notin> fst ` set (token2id vocab)) \<and>
   dictionary_get vocab None = None \<and>
   (dictionary_get vocab (Some i) = None) = (i \<notin> snd ` set (token2id vocab)) \<and>
   dd_getitem j (total_word_count corpus) =
     (if j \<in> fst ` set (concat corpus)
      then (sum_list (map snd (filter (\<lambda>p. fst p = j) (concat corpus))),
            total_word_count corpus)
      else (0, total_word_count corpus @ [(j, 0)]))"
  using dictionary_get_None_iff [of vocab i]
  by (simp add: token2id_get_def map_of_eq_None_iff dictionary_get_def dd_getitem_def
      total_word_count_entries)

end
